theory Spec2Isabelle
  imports Complex_Main
begin

section \<open>The grouped-payload graph builder (loadPersonDetails, legacy details script)\<close>

text \<open>
  The legacy details script receives the grouped family payload
  \<^verbatim>\<open>{parents, children, spouses, siblings}\<close> and, when d3 is loaded, converts it into
  \<^verbatim>\<open>networkData = {nodes, links}\<close>. Every \<^verbatim>\<open>forEach\<close> is a left fold over the
  array, every \<^verbatim>\<open>push\<close> appends at the end.
\<close>

record person =
  person_id :: string
  person_name :: string

record family_data =
  parents :: "person list"
  children :: "person list"
  spouses :: "person list"
  siblings :: "person list"

record gnode =
  node_id :: string
  node_name :: string
  node_type :: string

record glink =
  link_source :: string
  link_target :: string
  link_type :: string

record network_data =
  nodes :: "gnode list"
  links :: "glink list"

definition push :: "'a list \<Rightarrow> 'a \<Rightarrow> 'a list" where
  "push xs x = xs @ [x]"

definition mk_node :: "string \<Rightarrow> person \<Rightarrow> gnode" where
  "mk_node ty p = \<lparr>node_id = person_id p, node_name = person_name p, node_type = ty\<rparr>"

definition mk_link :: "string \<Rightarrow> string \<Rightarrow> string \<Rightarrow> glink" where
  "mk_link s t ty = \<lparr>link_source = s, link_target = t, link_type = ty\<rparr>"

definition add_parent :: "string \<Rightarrow> network_data \<Rightarrow> person \<Rightarrow> network_data" where
  "add_parent entityId nd parent =
     nd\<lparr>nodes := push (nodes nd) (mk_node ''parent'' parent),
        links := push (links nd) (mk_link (person_id parent) entityId ''parent'')\<rparr>"

definition add_child :: "string \<Rightarrow> network_data \<Rightarrow> person \<Rightarrow> network_data" where
  "add_child entityId nd child =
     nd\<lparr>nodes := push (nodes nd) (mk_node ''child'' child),
        links := push (links nd) (mk_link entityId (person_id child) ''parent'')\<rparr>"

definition add_spouse :: "string \<Rightarrow> network_data \<Rightarrow> person \<Rightarrow> network_data" where
  "add_spouse entityId nd spouse =
     nd\<lparr>nodes := push (nodes nd) (mk_node ''spouse'' spouse),
        links := push (links nd) (mk_link entityId (person_id spouse) ''spouse'')\<rparr>"

text \<open>
  The inner loop of the sibling case: one parent-typed link per entry of
  \<^verbatim>\<open>familyData.parents\<close>, and the flag \<^verbatim>\<open>linkedToParent\<close> set on every iteration.
\<close>

definition link_to_parent :: "person \<Rightarrow> network_data \<times> bool \<Rightarrow> person \<Rightarrow> network_data \<times> bool" where
  "link_to_parent sibling st parent =
     ((fst st)\<lparr>links := push (links (fst st))
                  (mk_link (person_id parent) (person_id sibling) ''parent'')\<rparr>, True)"

definition add_sibling :: "string \<Rightarrow> family_data \<Rightarrow> network_data \<Rightarrow> person \<Rightarrow> network_data" where
  "add_sibling entityId familyData nd sibling =
     (let nd1 = nd\<lparr>nodes := push (nodes nd) (mk_node ''sibling'' sibling)\<rparr>;
          st = foldl (link_to_parent sibling) (nd1, False) (parents familyData)
      in if \<not> snd st
         then (fst st)\<lparr>links := push (links (fst st))
                          (mk_link entityId (person_id sibling) ''sibling'')\<rparr>
         else fst st)"

definition self_node :: "string \<Rightarrow> string \<Rightarrow> gnode" where
  "self_node entityId personName =
     \<lparr>node_id = entityId, node_name = personName, node_type = ''self''\<rparr>"

text \<open>The network as it stands just before the deduplication step.\<close>

definition build_network :: "string \<Rightarrow> string \<Rightarrow> family_data \<Rightarrow> network_data" where
  "build_network entityId personName familyData =
     (let nd0 = \<lparr>nodes = [self_node entityId personName], links = []\<rparr>;
          nd1 = foldl (add_parent entityId) nd0 (parents familyData);
          nd2 = foldl (add_child entityId) nd1 (children familyData);
          nd3 = foldl (add_spouse entityId) nd2 (spouses familyData)
      in foldl (add_sibling entityId familyData) nd3 (siblings familyData))"

subsection \<open>The insertion-ordered Map of JavaScript\<close>

text \<open>
  \<^verbatim>\<open>new Map(entries)\<close> calls \<^verbatim>\<open>set\<close> for every entry in order. Setting a key
  that is already present replaces its value and keeps the key's position; a new key goes
  to the end. \<^verbatim>\<open>values()\<close> lists the values in key order.
\<close>

fun map_set :: "('k \<times> 'v) list \<Rightarrow> 'k \<Rightarrow> 'v \<Rightarrow> ('k \<times> 'v) list" where
  "map_set [] k v = [(k, v)]"
| "map_set (e # m) k v = (if fst e = k then (k, v) # m else e # map_set m k v)"

definition new_Map :: "('k \<times> 'v) list \<Rightarrow> ('k \<times> 'v) list" where
  "new_Map entries = foldl (\<lambda>m e. map_set m (fst e) (snd e)) [] entries"

definition map_values :: "('k \<times> 'v) list \<Rightarrow> 'v list" where
  "map_values m = map snd m"

definition dedup_nodes :: "gnode list \<Rightarrow> gnode list" where
  "dedup_nodes ns = map_values (new_Map (map (\<lambda>node. (node_id node, node)) ns))"

definition network_of_family :: "string \<Rightarrow> string \<Rightarrow> family_data \<Rightarrow> network_data" where
  "network_of_family entityId personName familyData =
     (let networkData = build_network entityId personName familyData
      in networkData\<lparr>nodes := dedup_nodes (nodes networkData)\<rparr>)"

text \<open>The instance of an id that was pushed first, and the one that was pushed last.\<close>

definition first_with_id :: "string \<Rightarrow> gnode list \<Rightarrow> gnode option" where
  "first_with_id i ns = find (\<lambda>n. node_id n = i) ns"

definition last_with_id :: "string \<Rightarrow> gnode list \<Rightarrow> gnode option" where
  "last_with_id i ns = find (\<lambda>n. node_id n = i) (rev ns)"

text \<open>
  The links that one iteration of the sibling loop appends, in closed form, the relatives
  of a payload in the order in which their nodes are pushed, and the network with nothing
  in it.
\<close>

definition sibling_links :: "string \<Rightarrow> person list \<Rightarrow> person \<Rightarrow> glink list" where
  "sibling_links e ps s =
     (if ps = [] then [mk_link e (person_id s) ''sibling'']
      else map (\<lambda>p. mk_link (person_id p) (person_id s) ''parent'') ps)"

definition relatives :: "family_data \<Rightarrow> person list" where
  "relatives fd = parents fd @ children fd @ spouses fd @ siblings fd"


section \<open>The flattened payload (current details and visualization scripts)\<close>

text \<open>
  The current scripts receive \<^verbatim>\<open>{nodes, links}\<close>. Of a node the modelled code reads
  \<^verbatim>\<open>id\<close>, \<^verbatim>\<open>name\<close>, \<^verbatim>\<open>depth\<close> and \<^verbatim>\<open>birth_date\<close>; an absent field is
  \<open>None\<close>. A link names its endpoints by id.
\<close>

record pnode =
  p_id :: string
  p_name :: "string option"
  p_depth :: int
  p_birth_date :: "string option"

record plink =
  l_source :: string
  l_target :: string
  l_type :: string

record family_graph =
  g_nodes :: "pnode list"
  g_links :: "plink list"

record relations =
  rel_parents :: "pnode list"
  rel_children :: "pnode list"
  rel_spouses :: "pnode list"
  rel_siblings :: "pnode list"

subsection \<open>displayFamilyRelations: the four relation buckets\<close>

definition node_by_id :: "pnode list \<Rightarrow> string \<Rightarrow> pnode option" where
  "node_by_id ns i = find (\<lambda>node. p_id node = i) ns"

definition central_person :: "pnode list \<Rightarrow> pnode option" where
  "central_person ns = find (\<lambda>node. p_depth node = 0) ns"

definition related_id :: "pnode \<Rightarrow> plink \<Rightarrow> string" where
  "related_id centralPerson link =
     (if l_source link = p_id centralPerson then l_target link else l_source link)"

text \<open>The body of the loop over \<^verbatim>\<open>familyData.links\<close>, with its two early returns.\<close>

definition classify_link :: "pnode \<Rightarrow> pnode list \<Rightarrow> relations \<Rightarrow> plink \<Rightarrow> relations" where
  "classify_link centralPerson ns rel link =
     (if l_source link \<noteq> p_id centralPerson \<and> l_target link \<noteq> p_id centralPerson then rel
      else (case node_by_id ns (related_id centralPerson link) of
        None \<Rightarrow> rel
      | Some relatedPerson \<Rightarrow>
          (if l_type link = ''parent'' then
             (if l_target link = p_id centralPerson
              then rel\<lparr>rel_parents := push (rel_parents rel) relatedPerson\<rparr>
              else rel\<lparr>rel_children := push (rel_children rel) relatedPerson\<rparr>)
           else if l_type link = ''spouse'' then
             rel\<lparr>rel_spouses := push (rel_spouses rel) relatedPerson\<rparr>
           else if l_type link = ''sibling'' then
             rel\<lparr>rel_siblings := push (rel_siblings rel) relatedPerson\<rparr>
           else rel)))"

definition no_relations :: relations where
  "no_relations = \<lparr>rel_parents = [], rel_children = [], rel_spouses = [], rel_siblings = []\<rparr>"

text \<open>
  The buckets handed to the four section renderers; \<open>None\<close> is the early return taken
  when no node has depth 0.
\<close>

definition family_relations :: "family_graph \<Rightarrow> relations option" where
  "family_relations familyData =
     (case central_person (g_nodes familyData) of
        None \<Rightarrow> None
      | Some centralPerson \<Rightarrow>
          Some (foldl (classify_link centralPerson (g_nodes familyData)) no_relations
                  (g_links familyData)))"

subsection \<open>Dates\<close>

text \<open>
  \<^verbatim>\<open>new Date(string)\<close> belongs to the host: which strings it accepts beyond the ISO
  forms differs between engines, and \<^verbatim>\<open>getFullYear\<close> depends on the host's time zone.
  The parser is therefore a parameter of everything below: it maps a string to
  \<open>None\<close> for an invalid Date (time value \<^verbatim>\<open>NaN\<close>) and otherwise to the Date's time
  value in milliseconds together with the text of \<^verbatim>\<open>getFullYear().toString()\<close>.
\<close>

record js_date =
  time_value :: int
  year_text :: string

type_synonym date_parser = "string \<Rightarrow> js_date option"

text \<open>The exceptions that the modelled code can raise.\<close>

datatype js_error = TypeError | URIError

subsection \<open>displayRelationSection: ordering the cards\<close>

text \<open>
  The comparator handed to \<^verbatim>\<open>relations.sort\<close>. A missing or empty
  \<^verbatim>\<open>birth_date\<close> is falsy. The difference of two Dates is the difference of their time
  values, and \<^verbatim>\<open>NaN\<close> (here \<open>None\<close>) as soon as one of them is invalid.
\<close>

definition birth_cmp :: "date_parser \<Rightarrow> pnode \<Rightarrow> pnode \<Rightarrow> int option" where
  "birth_cmp parse a b =
     (case p_birth_date a of
        None \<Rightarrow> Some 1
      | Some sa \<Rightarrow>
          (if sa = [] then Some 1
           else (case p_birth_date b of
             None \<Rightarrow> Some (- 1)
           | Some sb \<Rightarrow>
               (if sb = [] then Some (- 1)
                else (case parse sa of
                  None \<Rightarrow> None
                | Some da \<Rightarrow>
                    (case parse sb of
                       None \<Rightarrow> None
                     | Some db \<Rightarrow> Some (time_value da - time_value db)))))))"

text \<open>
  \<^verbatim>\<open>Array.prototype.sort\<close> is a built-in. It compares through SortCompare, which
  reads a \<^verbatim>\<open>NaN\<close> result of the comparator as \<open>+0\<close>. For a comparator that is not
  consistent, as this one is not, the language leaves the order to the engine, and engines
  differ. The model is one such order, the straight insertion sort: for each element in
  turn the comparator is asked about the new element and the one before it, and the new
  element moves left while the answer is negative. The sorted prefix is kept reversed, its
  last element first.
\<close>

definition sort_compare :: "('a \<Rightarrow> 'a \<Rightarrow> int option) \<Rightarrow> 'a \<Rightarrow> 'a \<Rightarrow> int" where
  "sort_compare comparefn x y = (case comparefn x y of None \<Rightarrow> 0 | Some v \<Rightarrow> v)"

fun insert_right :: "('a \<Rightarrow> 'a \<Rightarrow> int option) \<Rightarrow> 'a \<Rightarrow> 'a list \<Rightarrow> 'a list" where
  "insert_right comparefn x [] = [x]"
| "insert_right comparefn x (y # rs) =
     (if sort_compare comparefn x y < 0 then y # insert_right comparefn x rs else x # y # rs)"

definition js_sort :: "('a \<Rightarrow> 'a \<Rightarrow> int option) \<Rightarrow> 'a list \<Rightarrow> 'a list" where
  "js_sort comparefn xs = rev (foldl (\<lambda>rs x. insert_right comparefn x rs) [] xs)"

datatype section_view = Empty_state string | Cards "pnode list"

definition empty_message :: "string \<Rightarrow> string" where
  "empty_message relationType =
     (if relationType = ''parent'' then ''No parents found in the data''
      else if relationType = ''child'' then ''No children found in the data''
      else if relationType = ''spouse'' then ''No spouses found in the data''
      else if relationType = ''sibling'' then ''No siblings found in the data''
      else ''No information available'')"

text \<open>The cards of a section, in the order in which they are appended to the container.\<close>

definition displayRelationSection :: "date_parser \<Rightarrow> pnode list \<Rightarrow> string \<Rightarrow> section_view" where
  "displayRelationSection parse rels relationType =
     (if rels = [] then Empty_state (empty_message relationType)
      else Cards (js_sort (birth_cmp parse) rels))"

subsection \<open>formatDate\<close>

text \<open>
  The argument is a string, \<^verbatim>\<open>null\<close> or absent (\<open>None\<close>); the empty string is
  falsy as well. Constructing a Date from a string never throws, so the \<^verbatim>\<open>catch\<close>
  branch of the visualization script's version has no input that reaches it.
\<close>

definition formatDate :: "date_parser \<Rightarrow> string option \<Rightarrow> string" where
  "formatDate parse dateString =
     (case dateString of
        None \<Rightarrow> ''Unknown''
      | Some s \<Rightarrow>
          (if s = [] then ''Unknown''
           else (case parse s of None \<Rightarrow> s | Some date \<Rightarrow> year_text date)))"

text \<open>
  The legacy network script matches \<^verbatim>\<open>/[+-]?(\d{4})/\<close> against a string that is not
  a valid date. The match is tried at every position from the left; at a position the
  optional sign is taken first and given back when no four digits follow it. The capture
  is the four digits.
\<close>

definition is_digit :: "char \<Rightarrow> bool" where
  "is_digit c = (c \<in> set ''0123456789'')"

fun digits4 :: "string \<Rightarrow> string option" where
  "digits4 (a # b # c # d # rest) =
     (if is_digit a \<and> is_digit b \<and> is_digit c \<and> is_digit d then Some [a, b, c, d] else None)"
| "digits4 s = None"

fun match_here :: "string \<Rightarrow> string option" where
  "match_here [] = None"
| "match_here (c # rest) =
     (if c = CHR ''+'' \<or> c = CHR ''-''
      then (case digits4 rest of Some y \<Rightarrow> Some y | None \<Rightarrow> digits4 (c # rest))
      else digits4 (c # rest))"

fun year_match :: "string \<Rightarrow> string option" where
  "year_match [] = None"
| "year_match (c # rest) =
     (case match_here (c # rest) of Some y \<Rightarrow> Some y | None \<Rightarrow> year_match rest)"

definition formatDate_network :: "date_parser \<Rightarrow> string option \<Rightarrow> string" where
  "formatDate_network parse dateString =
     (case dateString of
        None \<Rightarrow> []
      | Some s \<Rightarrow>
          (if s = [] then []
           else (case parse s of
             None \<Rightarrow> (case year_match s of Some y \<Rightarrow> y | None \<Rightarrow> [])
           | Some date \<Rightarrow> year_text date)))"

text \<open>
  The two functions again, on an argument that is a string, \<^verbatim>\<open>null\<close>, absent or a
  finite number, with what they return or raise. Zero is falsy. A Date made from a number
  is invalid when the number lies outside -8.64e15 to 8.64e15, and has the number,
  truncated, as its time value otherwise; the year of a time value depends on the host's
  time zone and is a parameter. On an invalid date the visualization script returns its
  argument, whatever it is, and the legacy network script calls \<^verbatim>\<open>match\<close> on it,
  which a number does not have.
\<close>

datatype js_value = Undefined | Null | Str string | Num real

definition time_clip :: "real \<Rightarrow> int option" where
  "time_clip v =
     (if 8640000000000000 < abs v then None
      else Some (if 0 \<le> v then floor v else ceiling v))"

definition formatDate_value :: "date_parser \<Rightarrow> (int \<Rightarrow> string) \<Rightarrow> js_value \<Rightarrow> js_error + js_value" where
  "formatDate_value parse host_year dateString =
     (case dateString of
        Undefined \<Rightarrow> Inr (Str ''Unknown'')
      | Null \<Rightarrow> Inr (Str ''Unknown'')
      | Str s \<Rightarrow>
          (if s = [] then Inr (Str ''Unknown'')
           else (case parse s of
             None \<Rightarrow> Inr (Str s)
           | Some date \<Rightarrow> Inr (Str (year_text date))))
      | Num v \<Rightarrow>
          (if v = 0 then Inr (Str ''Unknown'')
           else (case time_clip v of
             None \<Rightarrow> Inr (Num v)
           | Some t \<Rightarrow> Inr (Str (host_year t)))))"

definition formatDate_network_value :: "date_parser \<Rightarrow> (int \<Rightarrow> string) \<Rightarrow> js_value \<Rightarrow> js_error + js_value" where
  "formatDate_network_value parse host_year dateString =
     (case dateString of
        Undefined \<Rightarrow> Inr (Str [])
      | Null \<Rightarrow> Inr (Str [])
      | Str s \<Rightarrow>
          (if s = [] then Inr (Str [])
           else (case parse s of
             None \<Rightarrow> Inr (Str (case year_match s of Some y \<Rightarrow> y | None \<Rightarrow> []))
           | Some date \<Rightarrow> Inr (Str (year_text date))))
      | Num v \<Rightarrow>
          (if v = 0 then Inr (Str [])
           else (case time_clip v of
             None \<Rightarrow> Inl TypeError
           | Some t \<Rightarrow> Inr (Str (host_year t)))))"

section \<open>The visualization script\<close>

subsection \<open>initializeVisualization: link objects\<close>

text \<open>
  Every link of the payload becomes an object whose \<^verbatim>\<open>source\<close> and \<^verbatim>\<open>target\<close>
  are what \<^verbatim>\<open>nodes.find\<close> returns for the two ids: the first node with that id, or
  \<^verbatim>\<open>undefined\<close> (\<open>None\<close>). The result of \<^verbatim>\<open>map\<close> is bound to the line elements
  as it is.
\<close>

record vlink =
  v_source :: "pnode option"
  v_target :: "pnode option"
  v_type :: string

definition resolve_link :: "pnode list \<Rightarrow> plink \<Rightarrow> vlink" where
  "resolve_link ns link =
     \<lparr>v_source = node_by_id ns (l_source link),
      v_target = node_by_id ns (l_target link),
      v_type = l_type link\<rparr>"

definition visualization_links :: "family_graph \<Rightarrow> vlink list" where
  "visualization_links data = map (resolve_link (g_nodes data)) (g_links data)"

subsection \<open>Hovering a node\<close>

text \<open>
  A rendered line carries its link object and its \<^verbatim>\<open>stroke-opacity\<close>.
  \<^verbatim>\<open>link.style('stroke-opacity', f)\<close> calls \<open>f\<close> on the lines in order. Reading
  \<^verbatim>\<open>.id\<close> of an undefined endpoint raises a TypeError, which stops the pass: the lines
  before keep their new opacity, the others their old one. \<^verbatim>\<open>||\<close> does not look at the
  target when the source already matches.
\<close>

record line_el =
  el_link :: vlink
  el_opacity :: real

definition hover_opacity :: "pnode \<Rightarrow> vlink \<Rightarrow> js_error + real" where
  "hover_opacity d l =
     (case v_source l of
        None \<Rightarrow> Inl TypeError
      | Some s \<Rightarrow>
          (if p_id s = p_id d then Inr 1
           else (case v_target l of
             None \<Rightarrow> Inl TypeError
           | Some t \<Rightarrow> (if p_id t = p_id d then Inr 1 else Inr 0.2))))"

fun mouseover_links :: "pnode \<Rightarrow> line_el list \<Rightarrow> line_el list \<times> js_error option" where
  "mouseover_links d [] = ([], None)"
| "mouseover_links d (el # els) =
     (case hover_opacity d (el_link el) of
        Inl err \<Rightarrow> (el # els, Some err)
      | Inr v \<Rightarrow>
          (case mouseover_links d els of
             (els', r) \<Rightarrow> (el\<lparr>el_opacity := v\<rparr> # els', r)))"

definition mouseout_links :: "line_el list \<Rightarrow> line_el list" where
  "mouseout_links els = map (\<lambda>el. el\<lparr>el_opacity := 1\<rparr>) els"

text \<open>A node is an endpoint of a link when one of the link's two nodes carries its id.\<close>

definition is_endpoint :: "pnode \<Rightarrow> vlink \<Rightarrow> bool" where
  "is_endpoint d l =
     (map_option p_id (v_source l) = Some (p_id d) \<or> map_option p_id (v_target l) = Some (p_id d))"

definition resolved :: "vlink \<Rightarrow> bool" where
  "resolved l = (v_source l \<noteq> None \<and> v_target l \<noteq> None)"

subsection \<open>The tick handler\<close>

text \<open>
  The simulation owns \<^verbatim>\<open>x\<close> and \<^verbatim>\<open>y\<close> of every node. \<^verbatim>\<open>Math.max\<close>,
  \<^verbatim>\<open>Math.min\<close> and the subtraction of 20 from the integer \<^verbatim>\<open>clientWidth\<close> are exact
  on finite numbers, so positions are modelled as reals. The handler first copies the
  positions of the endpoints into the lines, which changes no node. Then the visualization
  script writes the clamped value back to the node and renders the circle and the label
  there; the legacy network script renders \<^verbatim>\<open>translate(x, y)\<close> with the values as they
  are.
\<close>

record sim_node =
  sim_id :: string
  sim_x :: real
  sim_y :: real

definition ticked :: "real \<Rightarrow> real \<Rightarrow> sim_node list \<Rightarrow> sim_node list" where
  "ticked width height ns =
     map (\<lambda>d. d\<lparr>sim_x := max 20 (min (width - 20) (sim_x d)),
                sim_y := max 20 (min (height - 20) (sim_y d))\<rparr>) ns"

definition ticked_network :: "sim_node list \<Rightarrow> (real \<times> real) list" where
  "ticked_network ns = map (\<lambda>d. (sim_x d, sim_y d)) ns"

section \<open>The search form\<close>

text \<open>
  The query is the text of the search box, a sequence of UTF-16 code units.
  \<^verbatim>\<open>trim\<close> removes the white space and line terminators of ECMAScript from both ends.
  A string is truthy when it is not empty.
\<close>

type_synonym js_string = "nat list"

definition is_white_space :: "nat \<Rightarrow> bool" where
  "is_white_space u =
     (u \<in> set [9, 10, 11, 12, 13, 32, 160, 5760, 8232, 8233, 8239, 8287, 12288, 65279]
      \<or> (8192 \<le> u \<and> u \<le> 8202))"

definition trim :: "js_string \<Rightarrow> js_string" where
  "trim s = rev (dropWhile is_white_space (rev (dropWhile is_white_space s)))"

text \<open>
  What a handler does to the outside world, in order. \<open>Fetch_search q p\<close> is the request
  \<^verbatim>\<open>fetch('/api/search?query=' + encodeURIComponent(q) + '&page=' + p)\<close>.
\<close>

datatype effect =
    Prevent_default
  | Show_loading
  | Fetch_search js_string nat
  | Push_state js_string

fun is_fetch :: "effect \<Rightarrow> bool" where
  "is_fetch (Fetch_search q p) = True"
| "is_fetch e = False"

text \<open>
  \<^verbatim>\<open>encodeURIComponent\<close> raises a URIError on a surrogate that has no partner: a high
  surrogate not followed by a low one, or a low one not preceded by a high one.
\<close>

definition high_surrogate :: "nat \<Rightarrow> bool" where
  "high_surrogate u = (55296 \<le> u \<and> u \<le> 56319)"

definition low_surrogate :: "nat \<Rightarrow> bool" where
  "low_surrogate u = (56320 \<le> u \<and> u \<le> 57343)"

fun well_formed :: "js_string \<Rightarrow> bool" where
  "well_formed [] = True"
| "well_formed [u] = (\<not> high_surrogate u \<and> \<not> low_surrogate u)"
| "well_formed (u # v # rest) =
     (if high_surrogate u then low_surrogate v \<and> well_formed rest
      else \<not> low_surrogate u \<and> well_formed (v # rest))"

text \<open>
  Both versions of \<^verbatim>\<open>performSearch\<close> show the loading indicator, build the URL and
  fetch it. The effects are paired with the exception that ended them, if any.
\<close>

definition performSearch :: "js_string \<Rightarrow> nat \<Rightarrow> effect list \<times> js_error option" where
  "performSearch query page =
     (if well_formed query then ([Show_loading, Fetch_search query page], None)
      else ([Show_loading], Some URIError))"

record search_state =
  currentQuery :: js_string
  currentPage :: nat

text \<open>
  The submit handler of the search script: the new state, the effects, and the exception
  that ended the handler, if any. The URL is pushed after the search has been started.
\<close>

definition submit_handler ::
  "js_string \<Rightarrow> search_state \<Rightarrow> search_state \<times> effect list \<times> js_error option" where
  "submit_handler input st =
     (let query = trim input
      in if query \<noteq> []
         then (case performSearch query 1 of
                 (effs, Some err) \<Rightarrow>
                   (st\<lparr>currentQuery := query, currentPage := 1\<rparr>, Prevent_default # effs, Some err)
               | (effs, None) \<Rightarrow>
                   (st\<lparr>currentQuery := query, currentPage := 1\<rparr>,
                    Prevent_default # effs @ [Push_state query], None))
         else (st, [Prevent_default], None))"

text \<open>
  The submit handler in the search template, which encodes the query for the new URL and
  pushes it before it starts the search.
\<close>

definition template_submit_handler :: "js_string \<Rightarrow> effect list \<times> js_error option" where
  "template_submit_handler input =
     (let query = trim input
      in if query \<noteq> []
         then (if well_formed query
               then (case performSearch query 1 of
                       (effs, r) \<Rightarrow> (Prevent_default # Push_state query # effs, r))
               else ([Prevent_default], Some URIError))
         else ([Prevent_default], None))"

section \<open>Notions used in the statements\<close>

text \<open>
  A relation has a birth date when the field is present and not empty; its birth time is
  the time value of the parsed date, when the date parses.
\<close>

definition has_birth :: "pnode \<Rightarrow> bool" where
  "has_birth a = (case p_birth_date a of None \<Rightarrow> False | Some s \<Rightarrow> s \<noteq> [])"

definition birth_time :: "date_parser \<Rightarrow> pnode \<Rightarrow> int option" where
  "birth_time parse a =
     (case p_birth_date a of
        None \<Rightarrow> None
      | Some s \<Rightarrow> (if s = [] then None else map_option time_value (parse s)))"

text \<open>
  A relation is parsed when it has a birth time; \<open>later parse a b\<close> says that both are
  parsed and \<open>a\<close> was not born before \<open>b\<close>.
\<close>

definition parsed :: "date_parser \<Rightarrow> pnode \<Rightarrow> bool" where
  "parsed parse a = (birth_time parse a \<noteq> None)"

definition later :: "date_parser \<Rightarrow> pnode \<Rightarrow> pnode \<Rightarrow> bool" where
  "later parse a b = (case (birth_time parse a, birth_time parse b) of
                        (Some ta, Some tb) \<Rightarrow> tb \<le> ta | _ \<Rightarrow> False)"

text \<open>
  Four digits stand at position \<open>i\<close> of a string when the four characters from \<open>i\<close> on
  exist and are all digits.
\<close>

definition four_digits_at :: "string \<Rightarrow> nat \<Rightarrow> bool" where
  "four_digits_at s i = (i + 4 \<le> length s \<and> list_all is_digit (take 4 (drop i s)))"

text \<open>
  The line elements as \<^verbatim>\<open>enter().append('line')\<close> creates them, one per link object;
  no \<^verbatim>\<open>stroke-opacity\<close> is set, which renders as 1.
\<close>

definition append_lines :: "vlink list \<Rightarrow> line_el list" where
  "append_lines ls = map (\<lambda>l. \<lparr>el_link = l, el_opacity = 1\<rparr>) ls"

section \<open>Concrete payloads\<close>

text \<open>
  A parser instance for evaluating at concrete inputs: it accepts exactly the ISO year
  form \<^verbatim>\<open>YYYY\<close>, which every engine reads as 1 January of that year, 00:00 UTC, and
  reports the year as a host in UTC does. On the strings used below it returns what
  \<^verbatim>\<open>Date\<close> returns.
\<close>

definition digit_value :: "char \<Rightarrow> int" where
  "digit_value c = int (of_char c) - 48"

definition day_from_year :: "int \<Rightarrow> int" where
  "day_from_year y =
     365 * (y - 1970) + (y - 1969) div 4 - (y - 1901) div 100 + (y - 1601) div 400"

fun year_only_Date :: date_parser where
  "year_only_Date [a, b, c, d] =
     (if is_digit a \<and> is_digit b \<and> is_digit c \<and> is_digit d
      then Some \<lparr>time_value = 86400000 * day_from_year
                     (1000 * digit_value a + 100 * digit_value b + 10 * digit_value c + digit_value d),
                 year_text = [a, b, c, d]\<rparr>
      else None)"
| "year_only_Date s = None"

definition relative :: "string \<Rightarrow> string \<Rightarrow> person" where
  "relative i n = \<lparr>person_id = i, person_name = n\<rparr>"

definition flat_node :: "string \<Rightarrow> int \<Rightarrow> string option \<Rightarrow> pnode" where
  "flat_node i d b = \<lparr>p_id = i, p_name = None, p_depth = d, p_birth_date = b\<rparr>"

definition flat_link :: "string \<Rightarrow> string \<Rightarrow> string \<Rightarrow> plink" where
  "flat_link s t ty = \<lparr>l_source = s, l_target = t, l_type = ty\<rparr>"

text \<open>A person listed as spouse and again, under another name, as sibling.\<close>

definition twice_listed :: family_data where
  "twice_listed =
     \<lparr>parents = [], children = [],
      spouses = [relative ''Q2'' ''Philip''],
      siblings = [relative ''Q2'' ''Philip Mountbatten'']\<rparr>"

text \<open>The family of the specification's scenario, with a second parent.\<close>

definition windsor :: family_data where
  "windsor =
     \<lparr>parents = [relative ''Q1'' ''George VI'', relative ''Q4'' ''Elizabeth''],
      children = [],
      spouses = [relative ''Q2'' ''Philip''],
      siblings = [relative ''Q3'' ''Margaret'']\<rparr>"

text \<open>A payload that lists the central person among the siblings, under another name.\<close>

definition own_sibling :: family_data where
  "own_sibling =
     \<lparr>parents = [], children = [], spouses = [],
      siblings = [relative ''Q9682'' ''Lilibet'']\<rparr>"


text \<open>A flattened payload whose only link comes from an id that no node of the payload has.\<close>

definition dangling :: family_graph where
  "dangling =
     \<lparr>g_nodes = [flat_node ''Q1'' 0 None],
      g_links = [flat_link ''Q9'' ''Q1'' ''parent'']\<rparr>"

text \<open>A flattened payload with a parent link from the central person to itself.\<close>

definition self_loop :: family_graph where
  "self_loop =
     \<lparr>g_nodes = [flat_node ''Q1'' 0 None],
      g_links = [flat_link ''Q1'' ''Q1'' ''parent'']\<rparr>"

text \<open>Three relations: born 1950, a date in the form that the network script's comment gives
  as not parsed, born 1900.\<close>

definition three_births :: "pnode list" where
  "three_births =
     [flat_node ''Q5'' 1 (Some ''1950''),
      flat_node ''Q6'' 1 (Some ''+1936-00-00T00:00:00Z''),
      flat_node ''Q7'' 1 (Some ''1900'')]"

text \<open>A central person with two relatives, and a node that the simulation has moved out.\<close>

definition family3 :: "pnode list" where
  "family3 = [flat_node ''Q1'' 0 None, flat_node ''Q2'' 1 None, flat_node ''Q3'' 1 None]"

definition family3_graph :: family_graph where
  "family3_graph =
     \<lparr>g_nodes = family3,
      g_links = [flat_link ''Q2'' ''Q1'' ''parent'', flat_link ''Q1'' ''Q3'' ''parent'']\<rparr>"

definition off_canvas :: sim_node where
  "off_canvas = \<lparr>sim_id = ''Q1'', sim_x = 1000, sim_y = - 5\<rparr>"

section \<open>Properties of the grouped-payload builder\<close>

subsection \<open>The loops in closed form\<close>

lemma nodes_fold_parent:
  "nodes (foldl (add_parent e) nd ps) = nodes nd @ map (mk_node ''parent'') ps"
  by (induction ps arbitrary: nd) (simp_all add: add_parent_def push_def)


lemma nodes_fold_child:
  "nodes (foldl (add_child e) nd ps) = nodes nd @ map (mk_node ''child'') ps"
  by (induction ps arbitrary: nd) (simp_all add: add_child_def push_def)


lemma nodes_fold_spouse:
  "nodes (foldl (add_spouse e) nd ps) = nodes nd @ map (mk_node ''spouse'') ps"
  by (induction ps arbitrary: nd) (simp_all add: add_spouse_def push_def)


lemma fold_link_to_parent:
  "foldl (link_to_parent s) (nd, b) ps =
     (nd\<lparr>links := links nd @ map (\<lambda>p. mk_link (person_id p) (person_id s) ''parent'') ps\<rparr>,
      b \<or> ps \<noteq> [])"
  by (induction ps arbitrary: nd b) (simp_all add: link_to_parent_def push_def)

lemma add_sibling_eq:
  "add_sibling e fd nd s =
     nd\<lparr>nodes := nodes nd @ [mk_node ''sibling'' s],
        links := links nd @ sibling_links e (parents fd) s\<rparr>"
  by (simp add: add_sibling_def Let_def fold_link_to_parent push_def sibling_links_def)

lemma nodes_fold_sibling:
  "nodes (foldl (add_sibling e fd) nd ss) = nodes nd @ map (mk_node ''sibling'') ss"
  by (induction ss arbitrary: nd) (simp_all add: add_sibling_eq)


lemma nodes_build_network:
  "nodes (build_network e nm fd) =
     self_node e nm # map (mk_node ''parent'') (parents fd) @ map (mk_node ''child'') (children fd)
       @ map (mk_node ''spouse'') (spouses fd) @ map (mk_node ''sibling'') (siblings fd)"
  by (simp add: build_network_def Let_def nodes_fold_sibling nodes_fold_spouse nodes_fold_child nodes_fold_parent)


subsection \<open>The Map and the deduplication\<close>

lemma map_set_keys: "map fst (map_set m k v) = (if k \<in> set (map fst m) then map fst m else map fst m @ [k])"
  by (induction m) auto

lemma map_set_distinct: "distinct (map fst m) \<Longrightarrow> distinct (map fst (map_set m k v))"
  by (simp add: map_set_keys)

lemma map_of_map_set: "map_of (map_set m k v) = (map_of m)(k \<mapsto> v)"
  by (induction m) (auto simp: fun_eq_iff)

lemma fold_map_set_distinct:
  "distinct (map fst m) \<Longrightarrow> distinct (map fst (foldl (\<lambda>m e. map_set m (fst e) (snd e)) m es))"
  by (induction es arbitrary: m) (simp_all add: map_set_distinct)

lemma fold_map_set_map_of:
  "map_of (foldl (\<lambda>m e. map_set m (fst e) (snd e)) m es) = map_of m ++ map_of (rev es)"
  by (induction es arbitrary: m) (simp_all add: map_of_map_set map_add_def fun_eq_iff split: option.splits)

lemma remdups_drop_earlier: "k \<in> set ys \<Longrightarrow> remdups (xs @ k # ys) = remdups (xs @ ys)"
  by (induction xs) auto

lemma fold_map_set_keys:
  "distinct (map fst m) \<Longrightarrow>
   map fst (foldl (\<lambda>m e. map_set m (fst e) (snd e)) m es) = rev (remdups (rev (map fst m @ map fst es)))"
proof (induction es arbitrary: m)
  case Nil
  then show ?case by (simp add: distinct_remdups_id)
next
  case (Cons e es)
  have d: "distinct (map fst (map_set m (fst e) (snd e)))"
    using Cons.prems by (rule map_set_distinct)
  show ?case
  proof (cases "fst e \<in> set (map fst m)")
    case True
    then have "fst e \<in> set (rev (map fst m))" by simp
    then have "remdups (rev (map fst es) @ fst e # rev (map fst m)) = remdups (rev (map fst es) @ rev (map fst m))"
      by (rule remdups_drop_earlier)
    with True show ?thesis using Cons.IH[OF d] by (simp add: map_set_keys)
  next
    case False
    then show ?thesis using Cons.IH[OF d] by (simp add: map_set_keys)
  qed
qed

lemma set_map_set: "set (map_set m k v) \<subseteq> insert (k, v) (set m)"
  by (induction m) auto

lemma map_set_pred:
  "P (k, v) \<Longrightarrow> \<forall>e \<in> set m. P e \<Longrightarrow> \<forall>e \<in> set (map_set m k v). P e"
  using set_map_set[of m k v] by blast

lemma fold_map_set_pred:
  "\<forall>e \<in> set m. P e \<Longrightarrow> \<forall>e \<in> set es. P e \<Longrightarrow>
   \<forall>e \<in> set (foldl (\<lambda>m e. map_set m (fst e) (snd e)) m es). P e"
proof (induction es arbitrary: m)
  case Nil
  then show ?case by simp
next
  case (Cons e es)
  from Cons.prems(2) have h: "P (fst e, snd e)" and t: "\<forall>e \<in> set es. P e"
    by simp_all
  have "\<forall>x \<in> set (map_set m (fst e) (snd e)). P x"
    using h Cons.prems(1) by (rule map_set_pred)
  from Cons.IH[OF this t] show ?case by simp
qed

lemma new_Map_keyed:
  "\<forall>e \<in> set (new_Map (map (\<lambda>n. (node_id n, n)) ns)). fst e = node_id (snd e)"
  unfolding new_Map_def
  by (rule fold_map_set_pred[where P = "\<lambda>e. fst e = node_id (snd e)"]) simp_all

lemma map_of_rev_entries:
  "map_of (rev (map (\<lambda>n. (node_id n, n)) ns)) i = last_with_id i ns"
  unfolding last_with_id_def
  by (induction ns rule: rev_induct) auto

lemma dedup_ids: "map node_id (dedup_nodes ns) = rev (remdups (rev (map node_id ns)))"
proof -
  let ?es = "map (\<lambda>n. (node_id n, n)) ns"
  have "\<forall>e \<in> set (new_Map ?es). fst e = node_id (snd e)"
    by (rule new_Map_keyed)
  then have "map node_id (dedup_nodes ns) = map fst (new_Map ?es)"
    by (simp add: dedup_nodes_def map_values_def)
  also have "\<dots> = rev (remdups (rev (map fst ?es)))"
    unfolding new_Map_def using fold_map_set_keys[of "[]" ?es] by simp
  finally show ?thesis by (simp add: comp_def)
qed

lemma dedup_distinct: "distinct (map node_id (dedup_nodes ns))"
  by (simp add: dedup_ids)

lemma dedup_last: "n \<in> set (dedup_nodes ns) \<Longrightarrow> last_with_id (node_id n) ns = Some n"
proof -
  assume a: "n \<in> set (dedup_nodes ns)"
  let ?es = "map (\<lambda>n. (node_id n, n)) ns"
  have inv: "\<forall>e \<in> set (new_Map ?es). fst e = node_id (snd e)"
    by (rule new_Map_keyed)
  have dist: "distinct (map fst (new_Map ?es))"
    unfolding new_Map_def by (rule fold_map_set_distinct) simp
  from a obtain e where e: "e \<in> set (new_Map ?es)" "snd e = n"
    by (auto simp: dedup_nodes_def map_values_def)
  with inv have "(node_id n, n) \<in> set (new_Map ?es)"
    by (metis prod.collapse)
  with dist have "map_of (new_Map ?es) (node_id n) = Some n" by simp
  moreover have "map_of (new_Map ?es) = map_of (rev ?es)"
    unfolding new_Map_def by (simp add: fold_map_set_map_of)
  ultimately have "map_of (rev ?es) (node_id n) = Some n" by (simp only:)
  then show ?thesis by (simp only: map_of_rev_entries)
qed

text \<open>
  Claim C1, as the code has it. For every grouped payload the deduplicated node list has no
  two nodes with the same id and exactly the ids that were pushed, each id stands at the
  position of its first occurrence, and the node kept for an id is the instance that was
  pushed last.
\<close>

theorem dedup_unique_last_wins:
  "distinct (map node_id (nodes (network_of_family e nm fd)))
   \<and> set (map node_id (nodes (network_of_family e nm fd))) = set (map node_id (nodes (build_network e nm fd)))
   \<and> map node_id (nodes (network_of_family e nm fd)) = rev (remdups (rev (map node_id (nodes (build_network e nm fd)))))
   \<and> (\<forall>n \<in> set (nodes (network_of_family e nm fd)).
        last_with_id (node_id n) (nodes (build_network e nm fd)) = Some n)"
proof -
  define ns where "ns = nodes (build_network e nm fd)"
  have n: "nodes (network_of_family e nm fd) = dedup_nodes ns"
    by (simp add: network_of_family_def Let_def ns_def)
  have 1: "distinct (map node_id (dedup_nodes ns))" by (rule dedup_distinct)
  have 3: "map node_id (dedup_nodes ns) = rev (remdups (rev (map node_id ns)))" by (rule dedup_ids)
  have 2: "set (map node_id (dedup_nodes ns)) = set (map node_id ns)"
    by (simp only: 3 set_rev set_remdups)
  have 4: "\<forall>n \<in> set (dedup_nodes ns). last_with_id (node_id n) ns = Some n"
    using dedup_last by blast
  show ?thesis unfolding n ns_def[symmetric] using 1 2 3 4 by (intro conjI)
qed

lemma nodes_before_twice:
  "nodes (build_network ''Q9682'' ''Elizabeth II'' twice_listed) =
     [self_node ''Q9682'' ''Elizabeth II'', mk_node ''spouse'' (relative ''Q2'' ''Philip''),
      mk_node ''sibling'' (relative ''Q2'' ''Philip Mountbatten'')]"
  by (simp add: nodes_build_network twice_listed_def)

lemma nodes_after_twice:
  "nodes (network_of_family ''Q9682'' ''Elizabeth II'' twice_listed) =
     [self_node ''Q9682'' ''Elizabeth II'', mk_node ''sibling'' (relative ''Q2'' ''Philip Mountbatten'')]"
  by (simp add: network_of_family_def Let_def nodes_before_twice dedup_nodes_def new_Map_def
      map_values_def mk_node_def self_node_def relative_def)

text \<open>
  Claim C1 as stated fails on the first-constructed instance: for a person listed as a
  spouse and then as a sibling, the first instance pushed is the spouse node, and the node
  kept is the sibling node.
\<close>

theorem dedup_first_instance_counterexample:
  "first_with_id ''Q2'' (nodes (build_network ''Q9682'' ''Elizabeth II'' twice_listed))
     = Some \<lparr>node_id = ''Q2'', node_name = ''Philip'', node_type = ''spouse''\<rparr>
   \<and> nodes (network_of_family ''Q9682'' ''Elizabeth II'' twice_listed)
     = [\<lparr>node_id = ''Q9682'', node_name = ''Elizabeth II'', node_type = ''self''\<rparr>,
        \<lparr>node_id = ''Q2'', node_name = ''Philip Mountbatten'', node_type = ''sibling''\<rparr>]"
  by (simp add: nodes_before_twice nodes_after_twice first_with_id_def mk_node_def self_node_def relative_def)

theorem dedup_unique_last_wins_witness:
  "distinct (map node_id (nodes (network_of_family ''Q9682'' ''Elizabeth II'' twice_listed)))
   \<and> \<lparr>node_id = ''Q2'', node_name = ''Philip Mountbatten'', node_type = ''sibling''\<rparr>
        \<in> set (nodes (network_of_family ''Q9682'' ''Elizabeth II'' twice_listed))
   \<and> last_with_id ''Q2'' (nodes (build_network ''Q9682'' ''Elizabeth II'' twice_listed))
        = Some \<lparr>node_id = ''Q2'', node_name = ''Philip Mountbatten'', node_type = ''sibling''\<rparr>"
proof -
  let ?n = "\<lparr>node_id = ''Q2'', node_name = ''Philip Mountbatten'', node_type = ''sibling''\<rparr>"
  have m: "?n \<in> set (nodes (network_of_family ''Q9682'' ''Elizabeth II'' twice_listed))"
    by (simp add: nodes_after_twice mk_node_def relative_def)
  from dedup_unique_last_wins[of "''Q9682''" "''Elizabeth II''" twice_listed] m
  show ?thesis by fastforce
qed

lemma fold_map_set_head:
  "\<exists>v r. foldl (\<lambda>m e. map_set m (fst e) (snd e)) ((k, v0) # m) es = (k, v) # r"
proof (induction es arbitrary: v0 m)
  case Nil
  show ?case by simp
next
  case (Cons e es)
  show ?case
  proof (cases "k = fst e")
    case True
    with Cons.IH[of "snd e" m] show ?thesis by simp
  next
    case False
    with Cons.IH[of v0 "map_set m (fst e) (snd e)"] show ?thesis by simp
  qed
qed

lemma dedup_head: "\<exists>n' rest. dedup_nodes (n # ns) = n' # rest \<and> node_id n' = node_id n"
proof -
  let ?es = "map (\<lambda>n. (node_id n, n)) (n # ns)"
  obtain v r where vr: "new_Map ?es = (node_id n, v) # r"
    using fold_map_set_head[of "node_id n" n "[]" "map (\<lambda>n. (node_id n, n)) ns"]
    by (auto simp: new_Map_def)
  have "\<forall>e \<in> set (new_Map ?es). fst e = node_id (snd e)" by (rule new_Map_keyed)
  with vr have "node_id v = node_id n" by simp
  with vr show ?thesis by (simp add: dedup_nodes_def map_values_def)
qed

lemma find_append_cases:
  "find P (xs @ ys) = (case find P xs of None \<Rightarrow> find P ys | Some x \<Rightarrow> Some x)"
  by (induction xs) simp_all

lemma last_with_id_only:
  "i \<notin> node_id ` set ns \<Longrightarrow> node_id n = i \<Longrightarrow> last_with_id i (n # ns) = Some n"
proof -
  assume a: "i \<notin> node_id ` set ns" and b: "node_id n = i"
  from a have "find (\<lambda>n. node_id n = i) (rev ns) = None"
    by (auto simp: find_None_iff)
  with b show ?thesis by (simp add: last_with_id_def find_append_cases)
qed

text \<open>
  Claim C5, as the code has it. A grouped payload of N parents, M children, P spouses and
  S siblings gives 1 + N + M + P + S nodes before deduplication. After it at least one node
  is left: the first node carries the id of the central person and is the last instance
  that was pushed for that id. It is the self node whenever no relative carries that id.
\<close>

theorem node_count:
  "length (nodes (build_network e nm fd))
     = 1 + length (parents fd) + length (children fd) + length (spouses fd) + length (siblings fd)
   \<and> 1 \<le> length (nodes (network_of_family e nm fd))
   \<and> (\<exists>n rest. nodes (network_of_family e nm fd) = n # rest \<and> node_id n = e
         \<and> last_with_id e (nodes (build_network e nm fd)) = Some n)
   \<and> (e \<notin> person_id ` set (relatives fd) \<longrightarrow>
        (\<exists>rest. nodes (network_of_family e nm fd) = self_node e nm # rest))"
proof -
  let ?rest = "map (mk_node ''parent'') (parents fd) @ map (mk_node ''child'') (children fd)
       @ map (mk_node ''spouse'') (spouses fd) @ map (mk_node ''sibling'') (siblings fd)"
  have b: "nodes (build_network e nm fd) = self_node e nm # ?rest"
    by (simp add: nodes_build_network)
  have a: "length (nodes (build_network e nm fd))
     = 1 + length (parents fd) + length (children fd) + length (spouses fd) + length (siblings fd)"
    by (simp add: b)
  have n: "nodes (network_of_family e nm fd) = dedup_nodes (self_node e nm # ?rest)"
    by (simp add: network_of_family_def Let_def b)
  obtain n' rest where h: "nodes (network_of_family e nm fd) = n' # rest" "node_id n' = e"
    using dedup_head[of "self_node e nm" ?rest] unfolding n by (auto simp: self_node_def)
  have c: "1 \<le> length (nodes (network_of_family e nm fd))" by (simp add: h)
  have "n' \<in> set (dedup_nodes (self_node e nm # ?rest))"
    using h n by simp
  then have "last_with_id (node_id n') (self_node e nm # ?rest) = Some n'"
    by (rule dedup_last)
  with h have l: "last_with_id e (self_node e nm # ?rest) = Some n'" by simp
  have d: "n' = self_node e nm" if "e \<notin> person_id ` set (relatives fd)"
  proof -
    have "map node_id ?rest = map person_id (relatives fd)"
      by (simp add: relatives_def mk_node_def comp_def)
    then have "node_id ` set ?rest = person_id ` set (relatives fd)"
      by (metis list.set_map)
    with that have "e \<notin> node_id ` set ?rest" by simp
    then have "last_with_id e (self_node e nm # ?rest) = Some (self_node e nm)"
      by (rule last_with_id_only) (simp add: self_node_def)
    with l show ?thesis by simp
  qed
  from l have l': "last_with_id e (nodes (build_network e nm fd)) = Some n'"
    by (simp only: b)
  show ?thesis using a c h l' d by auto
qed

text \<open>
  Claim C5 as stated fails on the self node: when the payload lists the central person
  among the siblings, the two nodes pushed collapse into one, and the node left is the
  sibling instance; no node of type self remains.
\<close>

theorem self_node_counterexample:
  "nodes (build_network ''Q9682'' ''Elizabeth II'' own_sibling)
     = [\<lparr>node_id = ''Q9682'', node_name = ''Elizabeth II'', node_type = ''self''\<rparr>,
        \<lparr>node_id = ''Q9682'', node_name = ''Lilibet'', node_type = ''sibling''\<rparr>]
   \<and> nodes (network_of_family ''Q9682'' ''Elizabeth II'' own_sibling)
     = [\<lparr>node_id = ''Q9682'', node_name = ''Lilibet'', node_type = ''sibling''\<rparr>]"
  by (simp add: network_of_family_def Let_def nodes_build_network own_sibling_def dedup_nodes_def
      new_Map_def map_values_def mk_node_def self_node_def relative_def)

theorem node_count_witness:
  "''Q9682'' \<notin> person_id ` set (relatives windsor)
   \<and> length (nodes (build_network ''Q9682'' ''Elizabeth II'' windsor)) = 5
   \<and> (\<exists>rest. nodes (network_of_family ''Q9682'' ''Elizabeth II'' windsor) = self_node ''Q9682'' ''Elizabeth II'' # rest)"
proof -
  have h: "''Q9682'' \<notin> person_id ` set (relatives windsor)"
    by (simp add: relatives_def windsor_def relative_def)
  have l: "1 + length (parents windsor) + length (children windsor) + length (spouses windsor)
           + length (siblings windsor) = 5"
    by (simp add: windsor_def)
  from node_count[of "''Q9682''" "''Elizabeth II''" windsor] h l show ?thesis
    by simp
qed





section \<open>Properties of the relation buckets\<close>

text \<open>
  Claim C3, as the code has it. The central node is the first node of depth 0. A link that
  touches it and whose other endpoint resolves to a node \<open>r\<close> appends \<open>r\<close> to exactly one
  bucket: parents for a parent link whose target is the central node, children for a parent
  link whose source is the central node and whose target is not, spouses and siblings for
  spouse and sibling links in either direction. A link that touches the central node at
  neither endpoint, and a link whose other endpoint has no node, leave the buckets as they
  are.
\<close>

theorem classify_link_cases:
  "(l_type l = ''parent'' \<and> l_target l = p_id c \<and> node_by_id ns (l_source l) = Some r \<longrightarrow>
      classify_link c ns rel l = rel\<lparr>rel_parents := rel_parents rel @ [r]\<rparr>)
   \<and> (l_type l = ''parent'' \<and> l_source l = p_id c \<and> l_target l \<noteq> p_id c
        \<and> node_by_id ns (l_target l) = Some r \<longrightarrow>
      classify_link c ns rel l = rel\<lparr>rel_children := rel_children rel @ [r]\<rparr>)
   \<and> (l_type l = ''spouse'' \<and> (l_source l = p_id c \<or> l_target l = p_id c)
        \<and> node_by_id ns (related_id c l) = Some r \<longrightarrow>
      classify_link c ns rel l = rel\<lparr>rel_spouses := rel_spouses rel @ [r]\<rparr>)
   \<and> (l_type l = ''sibling'' \<and> (l_source l = p_id c \<or> l_target l = p_id c)
        \<and> node_by_id ns (related_id c l) = Some r \<longrightarrow>
      classify_link c ns rel l = rel\<lparr>rel_siblings := rel_siblings rel @ [r]\<rparr>)
   \<and> (l_source l \<noteq> p_id c \<and> l_target l \<noteq> p_id c \<longrightarrow> classify_link c ns rel l = rel)
   \<and> (node_by_id ns (related_id c l) = None \<longrightarrow> classify_link c ns rel l = rel)"
  by (auto simp: classify_link_def related_id_def push_def)

lemma family_relations_dangling:
  "family_relations dangling = Some no_relations"
  by (simp add: family_relations_def dangling_def central_person_def flat_node_def flat_link_def
      classify_link_def related_id_def node_by_id_def)

lemma family_relations_self_loop:
  "family_relations self_loop = Some (no_relations\<lparr>rel_parents := [flat_node ''Q1'' 0 None]\<rparr>)"
  by (simp add: family_relations_def self_loop_def central_person_def flat_node_def flat_link_def
      classify_link_def related_id_def node_by_id_def push_def no_relations_def)

text \<open>
  Claim C3 as stated fails in two places. A parent link from the central node to itself has
  the central node as source, and puts it among the parents, not the children. A parent link
  into the central node from an id that has no node puts nothing among the parents.
\<close>

theorem classify_counterexample:
  "l_type (flat_link ''Q1'' ''Q1'' ''parent'') = ''parent''
   \<and> l_source (flat_link ''Q1'' ''Q1'' ''parent'') = p_id (flat_node ''Q1'' 0 None)
   \<and> family_relations self_loop
       = Some \<lparr>rel_parents = [flat_node ''Q1'' 0 None], rel_children = [],
               rel_spouses = [], rel_siblings = []\<rparr>
   \<and> l_type (flat_link ''Q9'' ''Q1'' ''parent'') = ''parent''
   \<and> l_target (flat_link ''Q9'' ''Q1'' ''parent'') = p_id (flat_node ''Q1'' 0 None)
   \<and> family_relations dangling
       = Some \<lparr>rel_parents = [], rel_children = [], rel_spouses = [], rel_siblings = []\<rparr>"
  by (simp add: family_relations_dangling family_relations_self_loop no_relations_def flat_link_def flat_node_def)

theorem classify_link_cases_witness:
  "classify_link (flat_node ''Q1'' 0 None) family3 no_relations (flat_link ''Q2'' ''Q1'' ''parent'')
     = no_relations\<lparr>rel_parents := [flat_node ''Q2'' 1 None]\<rparr>
   \<and> classify_link (flat_node ''Q1'' 0 None) family3 no_relations (flat_link ''Q1'' ''Q3'' ''parent'')
     = no_relations\<lparr>rel_children := [flat_node ''Q3'' 1 None]\<rparr>
   \<and> classify_link (flat_node ''Q1'' 0 None) family3 no_relations (flat_link ''Q2'' ''Q1'' ''spouse'')
     = no_relations\<lparr>rel_spouses := [flat_node ''Q2'' 1 None]\<rparr>
   \<and> classify_link (flat_node ''Q1'' 0 None) family3 no_relations (flat_link ''Q1'' ''Q3'' ''sibling'')
     = no_relations\<lparr>rel_siblings := [flat_node ''Q3'' 1 None]\<rparr>
   \<and> classify_link (flat_node ''Q1'' 0 None) family3 no_relations (flat_link ''Q2'' ''Q3'' ''parent'')
     = no_relations
   \<and> classify_link (flat_node ''Q1'' 0 None) family3 no_relations (flat_link ''Q9'' ''Q1'' ''parent'')
     = no_relations"
proof -
  let ?c = "flat_node ''Q1'' 0 None"
  note d = family3_def flat_node_def flat_link_def node_by_id_def related_id_def no_relations_def
  have 1: "classify_link ?c family3 no_relations (flat_link ''Q2'' ''Q1'' ''parent'')
     = no_relations\<lparr>rel_parents := [flat_node ''Q2'' 1 None]\<rparr>"
    using classify_link_cases[of "flat_link ''Q2'' ''Q1'' ''parent''" ?c family3 "flat_node ''Q2'' 1 None" no_relations]
    by (simp add: d)
  have 2: "classify_link ?c family3 no_relations (flat_link ''Q1'' ''Q3'' ''parent'')
     = no_relations\<lparr>rel_children := [flat_node ''Q3'' 1 None]\<rparr>"
    using classify_link_cases[of "flat_link ''Q1'' ''Q3'' ''parent''" ?c family3 "flat_node ''Q3'' 1 None" no_relations]
    by (simp add: d)
  have 3: "classify_link ?c family3 no_relations (flat_link ''Q2'' ''Q1'' ''spouse'')
     = no_relations\<lparr>rel_spouses := [flat_node ''Q2'' 1 None]\<rparr>"
    using classify_link_cases[of "flat_link ''Q2'' ''Q1'' ''spouse''" ?c family3 "flat_node ''Q2'' 1 None" no_relations]
    by (simp add: d)
  have 4: "classify_link ?c family3 no_relations (flat_link ''Q1'' ''Q3'' ''sibling'')
     = no_relations\<lparr>rel_siblings := [flat_node ''Q3'' 1 None]\<rparr>"
    using classify_link_cases[of "flat_link ''Q1'' ''Q3'' ''sibling''" ?c family3 "flat_node ''Q3'' 1 None" no_relations]
    by (simp add: d)
  have 5: "classify_link ?c family3 no_relations (flat_link ''Q2'' ''Q3'' ''parent'') = no_relations"
    using classify_link_cases[of "flat_link ''Q2'' ''Q3'' ''parent''" ?c family3 "flat_node ''Q2'' 1 None" no_relations]
    by (simp add: d)
  have 6: "classify_link ?c family3 no_relations (flat_link ''Q9'' ''Q1'' ''parent'') = no_relations"
    using classify_link_cases[of "flat_link ''Q9'' ''Q1'' ''parent''" ?c family3 "flat_node ''Q2'' 1 None" no_relations]
    by (simp add: d)
  from 1 2 3 4 5 6 show ?thesis by (intro conjI)
qed

section \<open>Properties of the visualization\<close>

lemma length_visualization_links: "length (visualization_links data) = length (g_links data)"
  by (simp add: visualization_links_def)

lemma node_by_id_Some: "node_by_id ns i = Some n \<Longrightarrow> n \<in> set ns \<and> p_id n = i"
  unfolding node_by_id_def by (induction ns) (auto split: if_splits)

lemma node_by_id_None: "node_by_id ns i = None \<longleftrightarrow> i \<notin> p_id ` set ns"
  unfolding node_by_id_def by (auto simp: find_None_iff)

lemma resolved_links_kept:
  "l \<in> set (g_links data) \<Longrightarrow> node_by_id (g_nodes data) (l_source l) = Some s \<Longrightarrow>
   node_by_id (g_nodes data) (l_target l) = Some t \<Longrightarrow>
   \<lparr>v_source = Some s, v_target = Some t, v_type = l_type l\<rparr> \<in> set (visualization_links data)"
  by (force simp: visualization_links_def resolve_link_def)

text \<open>
  Claim C4 at a payload whose only link comes from an id without a node. The link is not
  dropped: the visualization keeps it with an undefined source, and hovering the central
  node then raises a TypeError on that line.
\<close>

theorem dangling_link_kept:
  "visualization_links dangling
     = [\<lparr>v_source = None, v_target = Some (flat_node ''Q1'' 0 None), v_type = ''parent''\<rparr>]
   \<and> mouseover_links (flat_node ''Q1'' 0 None) (append_lines (visualization_links dangling))
       = (append_lines (visualization_links dangling), Some TypeError)"
  by (simp add: visualization_links_def resolve_link_def dangling_def node_by_id_def
      flat_node_def flat_link_def append_lines_def hover_opacity_def)

lemma hover_opacity_resolved:
  "resolved l \<Longrightarrow> hover_opacity d l = Inr (if is_endpoint d l then 1 else 0.2)"
  by (auto simp: resolved_def hover_opacity_def is_endpoint_def)

lemma mouseover_resolved:
  "list_all (\<lambda>el. resolved (el_link el)) els \<Longrightarrow>
   mouseover_links d els
     = (map (\<lambda>el. el\<lparr>el_opacity := (if is_endpoint d (el_link el) then 1 else 0.2)\<rparr>) els, None)"
  by (induction els) (simp_all add: hover_opacity_resolved)

lemma hover_opacity_Inr:
  "hover_opacity d l = Inr v \<Longrightarrow> v = (if is_endpoint d l then 1 else 0.2)"
  by (auto simp: hover_opacity_def is_endpoint_def split: option.splits if_splits)

lemma mouseover_completed:
  "mouseover_links d els = (els', None) \<Longrightarrow>
   els' = map (\<lambda>el. el\<lparr>el_opacity := (if is_endpoint d (el_link el) then 1 else 0.2)\<rparr>) els"
proof (induction els arbitrary: els')
  case Nil
  then show ?case by simp
next
  case (Cons el els)
  from Cons.prems obtain v where v: "hover_opacity d (el_link el) = Inr v"
    by (cases "hover_opacity d (el_link el)") simp_all
  obtain r t where rt: "mouseover_links d els = (r, t)" by (cases "mouseover_links d els")
  from Cons.prems v rt have e: "els' = el\<lparr>el_opacity := v\<rparr> # r" and t: "t = None"
    by simp_all
  from Cons.IH[of r] rt t hover_opacity_Inr[OF v] e show ?case by simp
qed

text \<open>
  Claim C8. Whenever the hover handler of a node \<open>d\<close> completes, every line's opacity is 1
  exactly when \<open>d\<close> is an endpoint of its link, and below 1 for every other link; it
  completes whenever every link has both its endpoints. Leaving the node sets the opacity
  of every line to 1. The links stay as they are.
\<close>

theorem hover_highlight:
  "(mouseover_links d els = (els', None) \<longrightarrow>
      length els' = length els
      \<and> (\<forall>i < length els.
            el_link (els' ! i) = el_link (els ! i)
            \<and> (el_opacity (els' ! i) = 1 \<longleftrightarrow> is_endpoint d (el_link (els ! i)))
            \<and> (\<not> is_endpoint d (el_link (els ! i)) \<longrightarrow> el_opacity (els' ! i) < 1)))
   \<and> ((\<forall>el \<in> set els. resolved (el_link el)) \<longrightarrow> snd (mouseover_links d els) = None)
   \<and> length (mouseout_links els) = length els
   \<and> (\<forall>i < length els.
         el_link (mouseout_links els ! i) = el_link (els ! i)
         \<and> el_opacity (mouseout_links els ! i) = 1)"
proof (intro conjI impI)
  assume "mouseover_links d els = (els', None)"
  then have m: "els' = map (\<lambda>el. el\<lparr>el_opacity := (if is_endpoint d (el_link el) then 1 else 0.2)\<rparr>) els"
    by (rule mouseover_completed)
  show "length els' = length els" by (simp add: m)
  show "\<forall>i < length els.
            el_link (els' ! i) = el_link (els ! i)
            \<and> (el_opacity (els' ! i) = 1 \<longleftrightarrow> is_endpoint d (el_link (els ! i)))
            \<and> (\<not> is_endpoint d (el_link (els ! i)) \<longrightarrow> el_opacity (els' ! i) < 1)"
    by (simp add: m)
next
  assume "\<forall>el \<in> set els. resolved (el_link el)"
  then have "list_all (\<lambda>el. resolved (el_link el)) els" by (simp add: list_all_iff)
  then show "snd (mouseover_links d els) = None" by (simp add: mouseover_resolved)
next
  show "length (mouseout_links els) = length els" by (simp add: mouseout_links_def)
  show "\<forall>i < length els.
         el_link (mouseout_links els ! i) = el_link (els ! i)
         \<and> el_opacity (mouseout_links els ! i) = 1"
    by (simp add: mouseout_links_def)
qed

lemma lines_family3:
  "append_lines (visualization_links family3_graph)
     = [\<lparr>el_link = \<lparr>v_source = Some (flat_node ''Q2'' 1 None),
                       v_target = Some (flat_node ''Q1'' 0 None), v_type = ''parent''\<rparr>,
          el_opacity = 1\<rparr>,
        \<lparr>el_link = \<lparr>v_source = Some (flat_node ''Q1'' 0 None),
                       v_target = Some (flat_node ''Q3'' 1 None), v_type = ''parent''\<rparr>,
          el_opacity = 1\<rparr>]"
  by (simp add: append_lines_def visualization_links_def family3_graph_def family3_def
      resolve_link_def node_by_id_def flat_node_def flat_link_def)

theorem hover_highlight_witness:
  "list_all (\<lambda>el. resolved (el_link el)) (append_lines (visualization_links family3_graph))
   \<and> map el_opacity
        (fst (mouseover_links (flat_node ''Q2'' 1 None)
               (append_lines (visualization_links family3_graph)))) = [1, 0.2]
   \<and> snd (mouseover_links (flat_node ''Q2'' 1 None)
             (append_lines (visualization_links family3_graph))) = None
   \<and> map el_opacity
        (mouseout_links (fst (mouseover_links (flat_node ''Q2'' 1 None)
               (append_lines (visualization_links family3_graph))))) = [1, 1]"
proof -
  let ?els = "append_lines (visualization_links family3_graph)"
  let ?d = "flat_node ''Q2'' 1 None"
  have r: "\<forall>el \<in> set ?els. resolved (el_link el)"
    by (simp add: lines_family3 resolved_def)
  from hover_highlight[of ?d ?els "fst (mouseover_links ?d ?els)"] r
  have m: "snd (mouseover_links ?d ?els) = None" by blast
  then have e: "mouseover_links ?d ?els = (fst (mouseover_links ?d ?els), None)"
    by (metis prod.collapse)
  from hover_highlight[of ?d ?els "fst (mouseover_links ?d ?els)"] e
  have l: "length (fst (mouseover_links ?d ?els)) = length ?els" by blast
  have c: "fst (mouseover_links ?d ?els)
     = [(?els ! 0)\<lparr>el_opacity := 1\<rparr>, (?els ! 1)\<lparr>el_opacity := 0.2\<rparr>]"
    by (simp add: lines_family3 hover_opacity_def flat_node_def)
  from r m l c show ?thesis
    by (simp add: list_all_iff mouseout_links_def)
qed

text \<open>
  Claim C7, as the code has it. A tick of the visualization script leaves every node at
  x \<ge> 20 and y \<ge> 20, and at x \<le> width - 20 when the width is at least 40, at
  y \<le> height - 20 when the height is at least 40. A tick of the legacy network script
  renders the positions as they are.
\<close>

theorem ticked_positions:
  "length (ticked width height ns) = length ns
   \<and> (\<forall>d \<in> set (ticked width height ns).
         20 \<le> sim_x d \<and> 20 \<le> sim_y d
         \<and> (40 \<le> width \<longrightarrow> sim_x d \<le> width - 20)
         \<and> (40 \<le> height \<longrightarrow> sim_y d \<le> height - 20))
   \<and> ticked_network ns = map (\<lambda>d. (sim_x d, sim_y d)) ns"
  by (auto simp: ticked_def ticked_network_def)

text \<open>
  Claim C7 as stated fails on a surface 30 wide, where the node is put at x = 20, right of
  width - 20 = 10, and in the legacy network script, which renders a node at x = 1000 and
  y = -5 where it is.
\<close>

theorem ticked_counterexample:
  "ticked 30 600 [off_canvas] = [\<lparr>sim_id = ''Q1'', sim_x = 20, sim_y = 20\<rparr>]
   \<and> \<not> (20 :: real) \<le> 30 - 20
   \<and> ticked_network [off_canvas] = [(1000, - 5)]"
  by (simp add: ticked_def ticked_network_def off_canvas_def)

theorem ticked_positions_witness:
  "(40 :: real) \<le> 800 \<and> (40 :: real) \<le> 600
   \<and> ticked 800 600 [off_canvas] = [\<lparr>sim_id = ''Q1'', sim_x = 780, sim_y = 20\<rparr>]
   \<and> sim_x (hd (ticked 800 600 [off_canvas])) \<le> 800 - 20"
proof -
  have e: "ticked 800 600 [off_canvas] = [\<lparr>sim_id = ''Q1'', sim_x = 780, sim_y = 20\<rparr>]"
    by (simp add: ticked_def off_canvas_def)
  have "hd (ticked 800 600 [off_canvas]) \<in> set (ticked 800 600 [off_canvas])"
    by (simp add: e)
  with ticked_positions[of 800 600 "[off_canvas]"]
  have "sim_x (hd (ticked 800 600 [off_canvas])) \<le> 800 - 20"
    by fastforce
  with e show ?thesis by simp
qed

section \<open>Properties of date formatting\<close>

subsection \<open>The year pattern finds the first four digits\<close>

lemma digits4_Some: "digits4 s = Some y \<longleftrightarrow> four_digits_at s 0 \<and> y = take 4 s"
  by (cases s rule: digits4.cases) (auto simp: four_digits_at_def)

lemma digits4_None: "digits4 s = None \<longleftrightarrow> \<not> four_digits_at s 0"
  by (cases s rule: digits4.cases) (auto simp: four_digits_at_def)

lemma four_digits_at_Suc: "four_digits_at (c # rest) (Suc i) = four_digits_at rest i"
  by (auto simp: four_digits_at_def)

lemma four_digits_at_0: "four_digits_at (c # rest) 0 \<Longrightarrow> is_digit c"
  by (cases rest) (auto simp: four_digits_at_def)

lemma sign_no_digit: "c = CHR ''+'' \<or> c = CHR ''-'' \<Longrightarrow> \<not> is_digit c"
  by (auto simp: is_digit_def)

lemma match_here_Some:
  "match_here s = Some y \<Longrightarrow>
     (four_digits_at s 0 \<and> y = take 4 s)
     \<or> (\<not> four_digits_at s 0 \<and> four_digits_at s 1 \<and> y = take 4 (drop 1 s))"
proof (cases s)
  case Nil
  then show "match_here s = Some y \<Longrightarrow> ?thesis" by simp
next
  case (Cons c rest)
  assume m: "match_here s = Some y"
  show ?thesis
  proof (cases "c = CHR ''+'' \<or> c = CHR ''-''")
    case True
    then have nd: "\<not> four_digits_at s 0"
      using four_digits_at_0[of c rest] sign_no_digit[of c] Cons by blast
    then have "digits4 s = None" by (simp add: digits4_None)
    with m True Cons have "digits4 rest = Some y"
      by (auto split: option.splits)
    then have "four_digits_at rest 0 \<and> y = take 4 rest" by (simp add: digits4_Some)
    with nd Cons show ?thesis by (simp add: four_digits_at_Suc[of c rest 0])
  next
    case False
    with m Cons have "digits4 s = Some y" by simp
    then show ?thesis by (simp add: digits4_Some)
  qed
qed

lemma match_here_None: "match_here s = None \<Longrightarrow> \<not> four_digits_at s 0"
proof (cases s)
  case Nil
  then show ?thesis by (simp add: four_digits_at_def)
next
  case (Cons c rest)
  assume "match_here s = None"
  with Cons have "digits4 s = None"
    by (auto split: if_splits option.splits)
  then show ?thesis by (simp add: digits4_None)
qed

lemma year_match_None: "year_match s = None \<Longrightarrow> \<not> four_digits_at s i"
proof (induction s arbitrary: i)
  case Nil
  then show ?case by (simp add: four_digits_at_def)
next
  case (Cons c rest)
  from Cons.prems have m: "match_here (c # rest) = None" and r: "year_match rest = None"
    by (auto split: option.splits)
  show ?case
  proof (cases i)
    case 0
    with match_here_None[OF m] show ?thesis by simp
  next
    case (Suc j)
    with Cons.IH[OF r, of j] show ?thesis by (simp add: four_digits_at_Suc)
  qed
qed

lemma year_match_Some:
  "year_match s = Some y \<Longrightarrow>
   \<exists>i. four_digits_at s i \<and> (\<forall>j<i. \<not> four_digits_at s j) \<and> y = take 4 (drop i s)"
proof (induction s)
  case Nil
  then show ?case by simp
next
  case (Cons c rest)
  show ?case
  proof (cases "match_here (c # rest)")
    case (Some z)
    with Cons.prems have z: "z = y" by simp
    from match_here_Some[OF Some] z
    consider "four_digits_at (c # rest) 0" "y = take 4 (c # rest)"
      | "\<not> four_digits_at (c # rest) 0" "four_digits_at (c # rest) 1" "y = take 4 (drop 1 (c # rest))"
      by blast
    then show ?thesis
    proof cases
      case 1
      then have "four_digits_at (c # rest) 0 \<and> (\<forall>j<0. \<not> four_digits_at (c # rest) j)
                 \<and> y = take 4 (drop 0 (c # rest))" by simp
      then show ?thesis by blast
    next
      case 2
      then have "four_digits_at (c # rest) 1 \<and> (\<forall>j<1. \<not> four_digits_at (c # rest) j)
                 \<and> y = take 4 (drop 1 (c # rest))" by simp
      then show ?thesis by blast
    qed
  next
    case None
    with Cons.prems have "year_match rest = Some y" by simp
    from Cons.IH[OF this] obtain i where
      i: "four_digits_at rest i" "\<forall>j<i. \<not> four_digits_at rest j" "y = take 4 (drop i rest)"
      by blast
    have n0: "\<not> four_digits_at (c # rest) 0" by (rule match_here_None[OF None])
    have "\<forall>j<Suc i. \<not> four_digits_at (c # rest) j"
    proof (intro allI impI)
      fix j assume "j < Suc i"
      then show "\<not> four_digits_at (c # rest) j"
        using n0 i(2) by (cases j) (simp_all add: four_digits_at_Suc)
    qed
    with i have "four_digits_at (c # rest) (Suc i) \<and> (\<forall>j<Suc i. \<not> four_digits_at (c # rest) j)
                 \<and> y = take 4 (drop (Suc i) (c # rest))"
      by (simp add: four_digits_at_Suc)
    then show ?thesis by blast
  qed
qed

lemma year_match_first:
  "four_digits_at s i \<Longrightarrow> \<forall>j<i. \<not> four_digits_at s j \<Longrightarrow> year_match s = Some (take 4 (drop i s))"
proof -
  assume a: "four_digits_at s i" and b: "\<forall>j<i. \<not> four_digits_at s j"
  show ?thesis
  proof (cases "year_match s")
    case None
    with a year_match_None show ?thesis by blast
  next
    case (Some y)
    from year_match_Some[OF Some] obtain k where
      k: "four_digits_at s k" "\<forall>j<k. \<not> four_digits_at s j" "y = take 4 (drop k s)"
      by blast
    have "k = i"
    proof (rule ccontr)
      assume "k \<noteq> i"
      then have "k < i \<or> i < k" by arith
      with a b k show False by blast
    qed
    with Some k show ?thesis by simp
  qed
qed

lemma year_match_no_digits: "\<forall>i. \<not> four_digits_at s i \<Longrightarrow> year_match s = None"
proof (cases "year_match s")
  case None
  then show "year_match s = None" .
next
  case (Some y)
  assume "\<forall>i. \<not> four_digits_at s i"
  with year_match_Some[OF Some] show "year_match s = None" by blast
qed

subsection \<open>What the two functions return\<close>

lemma formatDate_value_narrow:
  "formatDate_value parse host_year Undefined = Inr (Str (formatDate parse None))
   \<and> formatDate_value parse host_year Null = Inr (Str (formatDate parse None))
   \<and> formatDate_value parse host_year (Str s) = Inr (Str (formatDate parse (Some s)))"
  by (simp add: formatDate_value_def formatDate_def split: option.splits)

lemma formatDate_network_value_narrow:
  "formatDate_network_value parse host_year Undefined = Inr (Str (formatDate_network parse None))
   \<and> formatDate_network_value parse host_year Null = Inr (Str (formatDate_network parse None))
   \<and> formatDate_network_value parse host_year (Str s)
       = Inr (Str (formatDate_network parse (Some s)))"
  by (simp add: formatDate_network_value_def formatDate_network_def split: option.splits)

text \<open>
  A number beyond the range of time values shows what the restriction to strings is for:
  the visualization script returns the number, which is no string, and the legacy network
  script raises.
\<close>

lemma formatDate_on_large_number:
  "formatDate_value parse host_year (Num 10000000000000000) = Inr (Num 10000000000000000)
   \<and> formatDate_network_value parse host_year (Num 10000000000000000) = Inl TypeError"
  by (simp add: formatDate_value_def formatDate_network_value_def time_clip_def)

text \<open>
  Claim C6, as the code has it. On an argument that is a string, \<^verbatim>\<open>null\<close> or absent,
  both versions raise nothing and return a string. The visualization script's version
  returns the placeholder Unknown for an absent or empty argument, and a non-empty string
  that is not a valid date unchanged. The legacy network script's version returns the empty
  string for an absent or empty argument, and for a string that is not a valid date the
  four digits at the first position where four digits stand, or the empty string when
  there is no such position.
\<close>

theorem formatDate_cases:
  "formatDate parse None = ''Unknown''
   \<and> formatDate parse (Some []) = ''Unknown''
   \<and> (s \<noteq> [] \<and> parse s = None \<longrightarrow> formatDate parse (Some s) = s)
   \<and> formatDate_network parse None = []
   \<and> formatDate_network parse (Some []) = []
   \<and> (parse s = None \<longrightarrow>
        formatDate_network parse (Some s) = (case year_match s of Some y \<Rightarrow> y | None \<Rightarrow> []))
   \<and> (parse s = None \<and> four_digits_at s i \<and> (\<forall>j<i. \<not> four_digits_at s j) \<longrightarrow>
        formatDate_network parse (Some s) = take 4 (drop i s))
   \<and> (parse s = None \<and> (\<forall>i. \<not> four_digits_at s i) \<longrightarrow> formatDate_network parse (Some s) = [])
   \<and> formatDate_value parse host_year Undefined = Inr (Str (formatDate parse None))
   \<and> formatDate_value parse host_year Null = Inr (Str (formatDate parse None))
   \<and> formatDate_value parse host_year (Str s) = Inr (Str (formatDate parse (Some s)))
   \<and> formatDate_network_value parse host_year Undefined = Inr (Str (formatDate_network parse None))
   \<and> formatDate_network_value parse host_year Null = Inr (Str (formatDate_network parse None))
   \<and> formatDate_network_value parse host_year (Str s)
       = Inr (Str (formatDate_network parse (Some s)))"
proof -
  have 1: "formatDate parse None = ''Unknown''" by (simp add: formatDate_def)
  have 2: "formatDate parse (Some []) = ''Unknown''" by (simp add: formatDate_def)
  have 3: "s \<noteq> [] \<and> parse s = None \<longrightarrow> formatDate parse (Some s) = s"
    by (simp add: formatDate_def)
  have 4: "formatDate_network parse None = []" by (simp add: formatDate_network_def)
  have 5: "formatDate_network parse (Some []) = []" by (simp add: formatDate_network_def)
  have 6: "parse s = None \<longrightarrow>
        formatDate_network parse (Some s) = (case year_match s of Some y \<Rightarrow> y | None \<Rightarrow> [])"
    by (cases s) (simp_all add: formatDate_network_def)
  have 7: "parse s = None \<and> four_digits_at s i \<and> (\<forall>j<i. \<not> four_digits_at s j) \<longrightarrow>
        formatDate_network parse (Some s) = take 4 (drop i s)"
  proof
    assume h: "parse s = None \<and> four_digits_at s i \<and> (\<forall>j<i. \<not> four_digits_at s j)"
    then have "year_match s = Some (take 4 (drop i s))" by (simp add: year_match_first)
    with h 6 show "formatDate_network parse (Some s) = take 4 (drop i s)" by simp
  qed
  have 8: "parse s = None \<and> (\<forall>i. \<not> four_digits_at s i) \<longrightarrow> formatDate_network parse (Some s) = []"
  proof
    assume h: "parse s = None \<and> (\<forall>i. \<not> four_digits_at s i)"
    then have "year_match s = None" by (simp add: year_match_no_digits)
    with h 6 show "formatDate_network parse (Some s) = []" by simp
  qed
  from 1 2 3 4 5 6 7 8 formatDate_value_narrow[of parse host_year s]
    formatDate_network_value_narrow[of parse host_year s]
  show ?thesis by (intro conjI) simp_all
qed

lemma year_match_wikidata: "year_match ''+1936-00-00T00:00:00Z'' = Some ''1936''"
  by (simp add: is_digit_def)

lemma year_only_wikidata: "year_only_Date ''+1936-00-00T00:00:00Z'' = None"
  by simp

text \<open>
  Claim C6 as stated fails on three strings that are not valid dates: the legacy network
  script turns the first into 1936 and the second into the empty string, and the
  visualization script turns the empty string into Unknown.
\<close>

theorem formatDate_counterexample:
  "year_only_Date ''+1936-00-00T00:00:00Z'' = None
   \<and> formatDate_network year_only_Date (Some ''+1936-00-00T00:00:00Z'') = ''1936''
   \<and> year_only_Date ''born long ago'' = None
   \<and> formatDate_network year_only_Date (Some ''born long ago'') = []
   \<and> formatDate year_only_Date (Some []) = ''Unknown''"
  by (simp add: formatDate_def formatDate_network_def is_digit_def)

theorem formatDate_cases_witness:
  "''+1936-00-00T00:00:00Z'' \<noteq> [] \<and> year_only_Date ''+1936-00-00T00:00:00Z'' = None
   \<and> four_digits_at ''+1936-00-00T00:00:00Z'' 1
   \<and> \<not> four_digits_at ''+1936-00-00T00:00:00Z'' 0
   \<and> formatDate year_only_Date (Some ''+1936-00-00T00:00:00Z'') = ''+1936-00-00T00:00:00Z''
   \<and> formatDate_network year_only_Date (Some ''+1936-00-00T00:00:00Z'') = ''1936''
   \<and> year_only_Date ''born long ago'' = None
   \<and> (\<forall>i. \<not> four_digits_at ''born long ago'' i)
   \<and> formatDate_network year_only_Date (Some ''born long ago'') = []"
proof -
  let ?s = "''+1936-00-00T00:00:00Z''"
  let ?t = "''born long ago''"
  have a: "?s \<noteq> [] \<and> year_only_Date ?s = None" by simp
  have b: "four_digits_at ?s 1" by (simp add: four_digits_at_def is_digit_def)
  have c: "\<forall>j<1. \<not> four_digits_at ?s j" by (simp add: four_digits_at_def is_digit_def)
  have d: "year_only_Date ?t = None" by simp
  have "year_match ?t = None" by (simp add: is_digit_def)
  then have e: "\<forall>i. \<not> four_digits_at ?t i" using year_match_None by blast
  from formatDate_cases[of year_only_Date ?s 1] a b c
  have 1: "formatDate year_only_Date (Some ?s) = ?s"
    and 2: "formatDate_network year_only_Date (Some ?s) = take 4 (drop 1 ?s)"
    by blast+
  from formatDate_cases[of year_only_Date ?t] d e
  have 3: "formatDate_network year_only_Date (Some ?t) = []" by blast
  from a b c d e 1 2 3 show ?thesis by simp
qed

section \<open>Properties of the search form\<close>

text \<open>
  Claim C9. When the trimmed text of the search box is empty, both submit handlers only
  prevent the default action and raise nothing: no search request is issued, and the
  search state is unchanged.
\<close>

theorem blank_query_no_fetch:
  assumes "trim input = []"
  shows "submit_handler input st = (st, [Prevent_default], None)
         \<and> filter is_fetch (fst (snd (submit_handler input st))) = []
         \<and> template_submit_handler input = ([Prevent_default], None)
         \<and> filter is_fetch (fst (template_submit_handler input)) = []"
  using assms by (simp add: submit_handler_def template_submit_handler_def)

theorem blank_query_no_fetch_witness:
  "trim [32, 9, 160, 32] = []
   \<and> filter is_fetch
       (fst (snd (submit_handler [32, 9, 160, 32] \<lparr>currentQuery = [], currentPage = 1\<rparr>))) = []
   \<and> filter is_fetch (fst (template_submit_handler [32, 9, 160, 32])) = []"
proof -
  have t: "trim [32, 9, 160, 32] = []"
    by (simp add: trim_def is_white_space_def)
  from blank_query_no_fetch[OF t, of "\<lparr>currentQuery = [], currentPage = 1\<rparr>"] t
  show ?thesis by simp
qed

text \<open>
  A query that is not blank is fetched once by either handler when it is well formed, and
  by neither when it is not.
\<close>

lemma nonblank_query_fetches:
  "trim input \<noteq> [] \<Longrightarrow> well_formed (trim input) \<Longrightarrow>
     filter is_fetch (fst (snd (submit_handler input st))) = [Fetch_search (trim input) 1]
     \<and> filter is_fetch (fst (template_submit_handler input)) = [Fetch_search (trim input) 1]"
  by (simp add: submit_handler_def template_submit_handler_def performSearch_def Let_def)

lemma ill_formed_query_raises:
  "trim input \<noteq> [] \<Longrightarrow> \<not> well_formed (trim input) \<Longrightarrow>
     submit_handler input st
       = (st\<lparr>currentQuery := trim input, currentPage := 1\<rparr>,
          [Prevent_default, Show_loading], Some URIError)
     \<and> template_submit_handler input = ([Prevent_default], Some URIError)"
  by (simp add: submit_handler_def template_submit_handler_def performSearch_def Let_def)

section \<open>Properties of the card order\<close>

text \<open>
  Claim C10 at three relations born 1950, at a date that does not parse, and 1900. Every
  comparison with the middle one is \<^verbatim>\<open>NaN\<close>, so nothing moves and the card of 1950
  stays before the card of 1900.
\<close>

theorem unparseable_birth_breaks_order:
  "displayRelationSection year_only_Date three_births ''sibling''
     = Cards [flat_node ''Q5'' 1 (Some ''1950''),
              flat_node ''Q6'' 1 (Some ''+1936-00-00T00:00:00Z''),
              flat_node ''Q7'' 1 (Some ''1900'')]
   \<and> birth_time year_only_Date (flat_node ''Q5'' 1 (Some ''1950'')) = Some (- 631152000000)
   \<and> birth_time year_only_Date (flat_node ''Q7'' 1 (Some ''1900'')) = Some (- 2208988800000)"
  by (simp add: displayRelationSection_def three_births_def js_sort_def sort_compare_def
      birth_cmp_def flat_node_def is_digit_def birth_time_def digit_value_def day_from_year_def)

lemma cmp_missing: "\<not> has_birth a \<Longrightarrow> sort_compare (birth_cmp parse) a b = 1"
  by (auto simp: has_birth_def sort_compare_def birth_cmp_def split: option.splits)

lemma cmp_dated_missing:
  "has_birth a \<Longrightarrow> \<not> has_birth b \<Longrightarrow> sort_compare (birth_cmp parse) a b = - 1"
  by (auto simp: has_birth_def sort_compare_def birth_cmp_def split: option.splits)

lemma cmp_parsed:
  "birth_time parse a = Some ta \<Longrightarrow> birth_time parse b = Some tb \<Longrightarrow>
   sort_compare (birth_cmp parse) a b = ta - tb"
  by (auto simp: birth_time_def sort_compare_def birth_cmp_def split: option.splits if_splits)

lemma birth_time_has_birth: "birth_time parse a = Some t \<Longrightarrow> has_birth a"
  by (auto simp: birth_time_def has_birth_def split: option.splits if_splits)

text \<open>
  The rest of this section is about the model of the sort, not about any one engine. In
  the reversed prefix the undated relations come first, then the dated ones.
\<close>

lemma insert_right_dated_prefix:
  "has_birth x \<Longrightarrow> list_all (\<lambda>a. \<not> has_birth a) ms \<Longrightarrow>
   insert_right (birth_cmp parse) x (ms @ ds) = ms @ insert_right (birth_cmp parse) x ds"
  by (induction ms) (simp_all add: cmp_dated_missing)

lemma insert_right_undated:
  "\<not> has_birth x \<Longrightarrow> insert_right (birth_cmp parse) x rs = x # rs"
  by (cases rs) (simp_all add: cmp_missing)

lemma insert_right_dated:
  "has_birth x \<Longrightarrow> list_all has_birth ds \<Longrightarrow> list_all has_birth (insert_right cmp x ds)"
  by (induction ds) simp_all

lemma fold_insert_split:
  "list_all (\<lambda>a. \<not> has_birth a) ms \<Longrightarrow> list_all has_birth ds \<Longrightarrow>
   \<exists>ms' ds'. foldl (\<lambda>rs x. insert_right (birth_cmp parse) x rs) (ms @ ds) xs = ms' @ ds'
      \<and> list_all (\<lambda>a. \<not> has_birth a) ms' \<and> list_all has_birth ds'"
proof (induction xs arbitrary: ms ds)
  case Nil
  then show ?case by auto
next
  case (Cons x xs)
  show ?case
  proof (cases "has_birth x")
    case True
    have "insert_right (birth_cmp parse) x (ms @ ds) = ms @ insert_right (birth_cmp parse) x ds"
      using True Cons.prems(1) by (rule insert_right_dated_prefix)
    moreover have "list_all has_birth (insert_right (birth_cmp parse) x ds)"
      using True Cons.prems(2) by (rule insert_right_dated)
    ultimately show ?thesis using Cons.IH[OF Cons.prems(1)] by simp
  next
    case False
    have "insert_right (birth_cmp parse) x (ms @ ds) = (x # ms) @ ds"
      using False by (simp add: insert_right_undated)
    moreover have "list_all (\<lambda>a. \<not> has_birth a) (x # ms)"
      using Cons.prems(1) False by simp
    ultimately show ?thesis using Cons.IH[OF _ Cons.prems(2), of "x # ms"] by simp
  qed
qed

text \<open>In the model the relations without a birth date come after all the others.\<close>

lemma undated_cards_last:
  "\<exists>ds ms. js_sort (birth_cmp parse) xs = ds @ ms
     \<and> list_all has_birth ds \<and> list_all (\<lambda>a. \<not> has_birth a) ms"
proof -
  obtain ms' ds' where h: "foldl (\<lambda>rs x. insert_right (birth_cmp parse) x rs) ([] @ []) xs = ms' @ ds'"
    "list_all (\<lambda>a. \<not> has_birth a) ms'" "list_all has_birth ds'"
    using fold_insert_split[of "[]" "[]" parse xs] by auto
  then have "js_sort (birth_cmp parse) xs = rev ds' @ rev ms'"
    by (simp add: js_sort_def)
  with h(2,3) show ?thesis by (metis list_all_rev)
qed

lemma later_cmp:
  "parsed parse x \<Longrightarrow> parsed parse y \<Longrightarrow>
   (sort_compare (birth_cmp parse) x y < 0) = (later parse y x \<and> \<not> later parse x y)"
  by (auto simp: parsed_def later_def cmp_parsed)

lemma later_total: "parsed parse y \<Longrightarrow> parsed parse x \<Longrightarrow> later parse y x \<or> later parse x y"
  by (auto simp: parsed_def later_def)

lemma later_trans: "later parse a b \<Longrightarrow> later parse b c \<Longrightarrow> later parse a c"
  by (auto simp: later_def split: option.splits)

lemma set_insert_right: "set (insert_right cmp x rs) = insert x (set rs)"
  by (induction rs) auto

lemma insert_right_sorted:
  "parsed parse x \<Longrightarrow> list_all (parsed parse) ds \<Longrightarrow> sorted_wrt (later parse) ds \<Longrightarrow>
   sorted_wrt (later parse) (insert_right (birth_cmp parse) x ds)
   \<and> list_all (parsed parse) (insert_right (birth_cmp parse) x ds)"
proof (induction ds)
  case Nil
  then show ?case by simp
next
  case (Cons y rs)
  from Cons.prems have py: "parsed parse y" and prs: "list_all (parsed parse) rs"
    and s: "sorted_wrt (later parse) rs" and yr: "\<forall>z \<in> set rs. later parse y z"
    by simp_all
  show ?case
  proof (cases "sort_compare (birth_cmp parse) x y < 0")
    case True
    then have "later parse y x" using later_cmp[OF Cons.prems(1) py] by simp
    with True yr Cons.IH[OF Cons.prems(1) prs s] py show ?thesis
      by (simp add: set_insert_right)
  next
    case False
    then have xy: "later parse x y"
      using later_cmp[OF Cons.prems(1) py] later_total[OF py Cons.prems(1)] by blast
    then have "\<forall>z \<in> set rs. later parse x z" using yr later_trans by blast
    with False xy Cons.prems show ?thesis by simp
  qed
qed

lemma fold_insert_sorted:
  "list_all (\<lambda>a. \<not> has_birth a) ms \<Longrightarrow> list_all (parsed parse) ds \<Longrightarrow>
   sorted_wrt (later parse) ds \<Longrightarrow> list_all (\<lambda>a. has_birth a = parsed parse a) xs \<Longrightarrow>
   \<exists>ms' ds'. foldl (\<lambda>rs x. insert_right (birth_cmp parse) x rs) (ms @ ds) xs = ms' @ ds'
      \<and> list_all (\<lambda>a. \<not> has_birth a) ms' \<and> list_all (parsed parse) ds'
      \<and> sorted_wrt (later parse) ds'"
proof (induction xs arbitrary: ms ds)
  case Nil
  then show ?case by auto
next
  case (Cons x xs)
  from Cons.prems(4) have hx: "has_birth x = parsed parse x"
    and rest: "list_all (\<lambda>a. has_birth a = parsed parse a) xs" by simp_all
  show ?case
  proof (cases "parsed parse x")
    case True
    with hx have hb: "has_birth x" by simp
    have e: "insert_right (birth_cmp parse) x (ms @ ds) = ms @ insert_right (birth_cmp parse) x ds"
      using hb Cons.prems(1) by (rule insert_right_dated_prefix)
    from insert_right_sorted[OF True Cons.prems(2,3)]
    have "sorted_wrt (later parse) (insert_right (birth_cmp parse) x ds)"
      and "list_all (parsed parse) (insert_right (birth_cmp parse) x ds)" by simp_all
    from Cons.IH[OF Cons.prems(1) this(2) this(1) rest] show ?thesis by (simp add: e)
  next
    case False
    with hx have nb: "\<not> has_birth x" by simp
    have e: "insert_right (birth_cmp parse) x (ms @ ds) = (x # ms) @ ds"
      using nb by (simp add: insert_right_undated)
    have "list_all (\<lambda>a. \<not> has_birth a) (x # ms)"
      using Cons.prems(1) nb by simp
    from Cons.IH[OF this Cons.prems(2,3) rest] show ?thesis by (simp only: e foldl_Cons)
  qed
qed

text \<open>
  In the model, when every birth date that is present parses, the cards are in ascending
  order of birth time, followed by the relations without a birth date.
\<close>

lemma cards_sorted_when_dates_parse:
  assumes "list_all (\<lambda>a. has_birth a = parsed parse a) xs"
  shows "\<exists>ds ms. js_sort (birth_cmp parse) xs = ds @ ms
           \<and> list_all (parsed parse) ds
           \<and> sorted_wrt (\<lambda>a b. later parse b a) ds
           \<and> list_all (\<lambda>a. \<not> has_birth a) ms"
proof -
  obtain ms' ds' where h: "foldl (\<lambda>rs x. insert_right (birth_cmp parse) x rs) ([] @ []) xs = ms' @ ds'"
    "list_all (\<lambda>a. \<not> has_birth a) ms'" "list_all (parsed parse) ds'" "sorted_wrt (later parse) ds'"
    using fold_insert_sorted[of "[]" parse "[]" xs] assms by auto
  then have "js_sort (birth_cmp parse) xs = rev ds' @ rev ms'"
    by (simp add: js_sort_def)
  moreover have "sorted_wrt (\<lambda>a b. later parse b a) (rev ds')"
    using h(4) by (simp add: sorted_wrt_rev)
  ultimately show ?thesis using h(2,3) by (metis list_all_rev)
qed

end
